theory Spec2Isabelle
  imports Main "HOL-Library.Word"
begin

section \<open>The background-remover gateway: upload handler, startup and client escaping\<close>

text \<open>
  The development embeds two source files. The Express server (the \<^verbatim>\<open>/upload\<close> handler
  and the start-up statements) is modelled with an explicit file system, an explicit
  inference backend and a trace of the effects the handler performs. The browser script
  contributes \<^verbatim>\<open>escapeHtml\<close>.
\<close>

subsection \<open>The file system the server works on\<close>

type_synonym bytes = "8 word list"

datatype node = Dir | File bytes

type_synonym filesystem = "string \<rightharpoonup> node"

text \<open>
  Every exception the handler can meet is a value: the \<^verbatim>\<open>errno\<close> codes of the
  synchronous \<^verbatim>\<open>fs\<close> calls, the rejections of \<^verbatim>\<open>axios.post\<close>, and the
  \<^verbatim>\<open>TypeError\<close> of iterating \<^verbatim>\<open>undefined\<close>.
\<close>

datatype error =
    ENOENT | EEXIST | EISDIR | ENOTDIR
  | ERR_BAD_RESPONSE nat | ECONNREFUSED | ECONNABORTED
  | TypeError

definition dirname :: "string \<Rightarrow> string" where
  "dirname p =
     (if CHR ''/'' \<in> set p
      then rev (tl (dropWhile (\<lambda>c. c \<noteq> CHR ''/'') (rev p)))
      else ''.'')"

text \<open>The working directory \<^verbatim>\<open>.\<close> always exists; every other directory is an entry.\<close>

definition is_dir :: "filesystem \<Rightarrow> string \<Rightarrow> bool" where
  "is_dir F d = (d = ''.'' \<or> F d = Some Dir)"

definition existsSync :: "filesystem \<Rightarrow> string \<Rightarrow> bool" where
  "existsSync F p = (F p \<noteq> None)"

definition mkdirSync :: "string \<Rightarrow> filesystem \<Rightarrow> error + filesystem" where
  "mkdirSync p F =
     (if F p \<noteq> None then Inl EEXIST
      else if is_dir F (dirname p) then Inr (F(p \<mapsto> Dir))
      else if F (dirname p) = None then Inl ENOENT
      else Inl ENOTDIR)"

definition read_file :: "filesystem \<Rightarrow> string \<Rightarrow> error + bytes" where
  "read_file F p =
     (case F p of
        None \<Rightarrow> Inl ENOENT
      | Some Dir \<Rightarrow> Inl EISDIR
      | Some (File b) \<Rightarrow> Inr b)"

definition writeFileSync :: "string \<Rightarrow> bytes \<Rightarrow> filesystem \<Rightarrow> error + filesystem" where
  "writeFileSync p d F =
     (if F p = Some Dir then Inl EISDIR
      else if is_dir F (dirname p) then Inr (F(p \<mapsto> File d))
      else if F (dirname p) = None then Inl ENOENT
      else Inl ENOTDIR)"

definition unlinkSync :: "string \<Rightarrow> filesystem \<Rightarrow> error + filesystem" where
  "unlinkSync p F =
     (case F p of
        None \<Rightarrow> Inl ENOENT
      | Some Dir \<Rightarrow> Inl EISDIR
      | Some (File b) \<Rightarrow> Inr (F(p := None)))"

subsection \<open>Requests, responses and the inference backend\<close>

text \<open>
  \<^verbatim>\<open>upload.array('images')\<close> leaves \<^verbatim>\<open>req.files\<close> undefined when the submission is
  not multipart, and otherwise sets it to the list of stored files. The query string is
  where the browser script puts the quality parameters.
\<close>

record upload_file =
  originalname :: string
  filename :: string
  path :: string

record request =
  query :: "(string \<times> string) list"
  files :: "upload_file list option"

text \<open>
  What reaches the inference engine for one item: the URL, the single form field
  \<^verbatim>\<open>file\<close>, and the read stream opened on \<^verbatim>\<open>file.path\<close> with the bytes it
  delivers. The multipart boundary is left out.
\<close>

record backend_request =
  url :: string
  field :: string
  stream_path :: string
  content :: bytes

record axios_config =
  headers :: "(string \<times> string) list"
  responseType :: string
  timeout :: "nat option"

text \<open>
  The engine either answers with a success status and the processed bytes, answers
  with a non-success status, cannot be reached, or never answers.
\<close>

datatype reply = Success bytes | Failure nat | Unreachable | Silent

type_synonym backend = "nat \<Rightarrow> backend_request \<Rightarrow> reply"

datatype 'a promise = Resolved 'a | Rejected error | Pending

text \<open>
  How \<^verbatim>\<open>axios.post\<close> settles: a non-success status and a connection failure reject;
  without a \<^verbatim>\<open>timeout\<close> in the configuration a missing answer leaves the promise
  pending for ever, with one it rejects.
\<close>

definition axios_settle :: "axios_config \<Rightarrow> reply \<Rightarrow> bytes promise" where
  "axios_settle cfg r =
     (case r of
        Success d \<Rightarrow> Resolved d
      | Failure st \<Rightarrow> Rejected (ERR_BAD_RESPONSE st)
      | Unreachable \<Rightarrow> Rejected ECONNREFUSED
      | Silent \<Rightarrow> (case timeout cfg of None \<Rightarrow> Pending | Some ms \<Rightarrow> Rejected ECONNABORTED))"

datatype json =
    JNull | JBool bool | JNumber int | JString string
  | JArray "json list" | JObject "(string \<times> json) list"

datatype payload = JsonBody json | TextBody string

record response =
  status :: nat
  body :: payload

subsection \<open>The upload handler\<close>

text \<open>
  The effects of one run, in the order they happen. \<open>Dispatched i rq\<close>: the inference
  call of item \<open>i\<close> is in flight; \<open>Settled i\<close>: its promise has settled and the handler
  has resumed.
\<close>

datatype event =
    Dispatched nat backend_request
  | Settled nat
  | Wrote string
  | Unlinked string
  | Logged error

record hstate =
  fs :: filesystem
  processedImages :: "string list"
  trace :: "event list"

datatype completion = Normal | Throw error | Await

definition emit :: "event \<Rightarrow> hstate \<Rightarrow> hstate" where
  "emit e S = S\<lparr>trace := trace S @ [e]\<rparr>"

definition upload_config :: axios_config where
  "upload_config =
     \<lparr>headers = [(''content-type'', ''multipart/form-data'')],
      responseType = ''arraybuffer'',
      timeout = None\<rparr>"

definition inference_request :: "upload_file \<Rightarrow> bytes \<Rightarrow> backend_request" where
  "inference_request f b =
     \<lparr>url = ''http://localhost:5001/remove-background'',
      field = ''file'',
      stream_path = path f,
      content = b\<rparr>"

definition processed_path :: "upload_file \<Rightarrow> string" where
  "processed_path f = ''processed/'' @ filename f @ ''.png''"

text \<open>The body of the \<^verbatim>\<open>for\<close> loop, for the item at position \<open>i\<close>.\<close>

definition process_file :: "backend \<Rightarrow> nat \<Rightarrow> upload_file \<Rightarrow> hstate \<Rightarrow> completion \<times> hstate" where
  "process_file be i f S =
     (case read_file (fs S) (path f) of
        Inl e \<Rightarrow> (Throw e, S)
      | Inr b \<Rightarrow>
          (let rq = inference_request f b;
               S1 = emit (Dispatched i rq) S
           in case axios_settle upload_config (be i rq) of
                Pending \<Rightarrow> (Await, S1)
              | Rejected e \<Rightarrow> (Throw e, emit (Settled i) S1)
              | Resolved d \<Rightarrow>
                  (let S2 = emit (Settled i) S1;
                       processedImagePath = processed_path f
                   in case writeFileSync processedImagePath d (fs S2) of
                        Inl e \<Rightarrow> (Throw e, S2)
                      | Inr F1 \<Rightarrow>
                          (let S3 = emit (Wrote processedImagePath)
                                      (S2\<lparr>fs := F1,
                                          processedImages :=
                                            processedImages S2 @ [processedImagePath]\<rparr>)
                           in case unlinkSync (path f) (fs S3) of
                                Inl e \<Rightarrow> (Throw e, S3)
                              | Inr F2 \<Rightarrow>
                                  (Normal, emit (Unlinked (path f)) (S3\<lparr>fs := F2\<rparr>))))))"

fun for_files :: "backend \<Rightarrow> nat \<Rightarrow> upload_file list \<Rightarrow> hstate \<Rightarrow> completion \<times> hstate" where
  "for_files be i [] S = (Normal, S)"
| "for_files be i (f # rest) S =
     (case process_file be i f S of
        (Normal, S') \<Rightarrow> for_files be (Suc i) rest S'
      | (Throw e, S') \<Rightarrow> (Throw e, S')
      | (Await, S') \<Rightarrow> (Await, S'))"

definition ok_response :: "string list \<Rightarrow> response" where
  "ok_response ps =
     \<lparr>status = 200,
      body = JsonBody (JObject [(''processedImages'', JArray (map JString ps))])\<rparr>"

definition error_response :: response where
  "error_response = \<lparr>status = 500, body = TextBody ''Error processing images''\<rparr>"

text \<open>
  The handler: \<open>None\<close> as the response means that no response is ever sent, because
  the handler is suspended for ever at an \<^verbatim>\<open>await\<close>.
\<close>

definition upload_handler :: "backend \<Rightarrow> filesystem \<Rightarrow> request \<Rightarrow> response option \<times> hstate" where
  "upload_handler be F req =
     (let S0 = \<lparr>fs = F, processedImages = [], trace = []\<rparr>;
          r = (case files req of
                 None \<Rightarrow> (Throw TypeError, S0)
               | Some fl \<Rightarrow> for_files be 0 fl S0)
      in case r of
           (Normal, S) \<Rightarrow> (Some (ok_response (processedImages S)), S)
         | (Throw e, S) \<Rightarrow> (Some error_response, emit (Logged e) S)
         | (Await, S) \<Rightarrow> (None, S))"

subsection \<open>Observations on a run\<close>

fun dispatched :: "event list \<Rightarrow> backend_request list" where
  "dispatched [] = []"
| "dispatched (Dispatched i rq # es) = rq # dispatched es"
| "dispatched (e # es) = dispatched es"

fun unlinked :: "event list \<Rightarrow> string list" where
  "unlinked [] = []"
| "unlinked (Unlinked p # es) = p # unlinked es"
| "unlinked (e # es) = unlinked es"

text \<open>The number of inference calls in flight after a sequence of events.\<close>

fun in_flight :: "event list \<Rightarrow> int" where
  "in_flight [] = 0"
| "in_flight (Dispatched i rq # es) = in_flight es + 1"
| "in_flight (Settled i # es) = in_flight es - 1"
| "in_flight (e # es) = in_flight es"

text \<open>The outcome entries a response carries: the elements of its list, none for the error text.\<close>

definition outcome_entries :: "response option \<Rightarrow> json list" where
  "outcome_entries r =
     (case r of
        Some res \<Rightarrow>
          (case body res of
             JsonBody (JObject [(k, JArray es)]) \<Rightarrow> es
           | _ \<Rightarrow> [])
      | None \<Rightarrow> [])"

subsection \<open>Start-up\<close>

definition ensure_dir :: "string \<Rightarrow> filesystem \<Rightarrow> error + filesystem" where
  "ensure_dir d F = (if \<not> existsSync F d then mkdirSync d F else Inr F)"

definition startup :: "filesystem \<Rightarrow> error + filesystem" where
  "startup F =
     (case ensure_dir ''uploads'' F of
        Inl e \<Rightarrow> Inl e
      | Inr F1 \<Rightarrow> ensure_dir ''processed'' F1)"

text \<open>
  \<^verbatim>\<open>multer({ dest: 'uploads/' })\<close>, evaluated when the script loads, builds the disk
  storage, which calls \<^verbatim>\<open>mkdirp.sync\<close> on the destination: a missing directory is
  created, an existing one is left as it is, and a regular file of that name makes the
  call throw.
\<close>

definition mkdirp_sync :: "string \<Rightarrow> filesystem \<Rightarrow> error + filesystem" where
  "mkdirp_sync d F =
     (case F d of
        None \<Rightarrow> Inr (F(d \<mapsto> Dir))
      | Some Dir \<Rightarrow> Inr F
      | Some (File b) \<Rightarrow> Inl EEXIST)"

text \<open>
  The script's top level: the construction of the upload middleware, the directory
  checks, then \<^verbatim>\<open>app.listen\<close>. An exception thrown on the way ends the process
  before it listens. A request is served only by a listening server.
\<close>

record server =
  disk :: filesystem
  listening :: bool

definition main :: "server \<Rightarrow> error + server" where
  "main sv =
     (case mkdirp_sync ''uploads'' (disk sv) of
        Inl e \<Rightarrow> Inl e
      | Inr F0 \<Rightarrow>
          (case startup F0 of
             Inl e \<Rightarrow> Inl e
           | Inr F \<Rightarrow> Inr (sv\<lparr>disk := F, listening := True\<rparr>)))"

definition serve :: "backend \<Rightarrow> server \<Rightarrow> request \<Rightarrow> (response option \<times> hstate) option" where
  "serve be sv req = (if listening sv then Some (upload_handler be (disk sv) req) else None)"

subsection \<open>The browser script\<close>

text \<open>A JavaScript string is a sequence of 16-bit code units.\<close>

type_synonym code_unit = "16 word"
type_synonym jsstring = "code_unit list"

definition js :: "string \<Rightarrow> jsstring" where
  "js s = map (\<lambda>c. of_nat (of_char c)) s"

text \<open>
  \<^verbatim>\<open>String.prototype.replace\<close> with a global regular expression that is a character
  class, and a replacer function: every matching code unit is a match of its own.
\<close>

fun replace_global :: "(code_unit \<Rightarrow> bool) \<Rightarrow> (jsstring \<Rightarrow> jsstring) \<Rightarrow> jsstring \<Rightarrow> jsstring" where
  "replace_global m f [] = []"
| "replace_global m f (c # cs) =
     (if m c then f [c] @ replace_global m f cs else c # replace_global m f cs)"

definition special :: "code_unit \<Rightarrow> bool" where
  "special c = (c \<in> set (js [CHR ''&'', CHR ''<'', CHR ''>'', CHR 0x22, CHR 0x27]))"

definition entity_map :: "(jsstring \<times> jsstring) list" where
  "entity_map =
     [(js ''&'', js ''&amp;''),
      (js ''<'', js ''&lt;''),
      (js ''>'', js ''&gt;''),
      (js [CHR 0x22], js ''&quot;''),
      (js [CHR 0x27], js ''&#39;'')]"

text \<open>\<^verbatim>\<open>map[s] || ''\<close>: the entry, or the empty string when it is missing or empty.\<close>

definition escapeHtml :: "jsstring \<Rightarrow> jsstring" where
  "escapeHtml str =
     replace_global special
       (\<lambda>s. case map_of entity_map s of
              Some e \<Rightarrow> (if e = [] then [] else e)
            | None \<Rightarrow> [])
       str"

text \<open>The replacement the description of \<^verbatim>\<open>escapeHtml\<close> gives, code unit by code unit.\<close>

definition entity_of :: "code_unit \<Rightarrow> jsstring" where
  "entity_of c =
     (if [c] = js ''&'' then js ''&amp;''
      else if [c] = js ''<'' then js ''&lt;''
      else if [c] = js ''>'' then js ''&gt;''
      else if [c] = js [CHR 0x22] then js ''&quot;''
      else if [c] = js [CHR 0x27] then js ''&#39;''
      else [c])"

text \<open>Reading a field of a JSON value; \<open>None\<close> when the value has no such field.\<close>

fun member :: "json \<Rightarrow> string \<Rightarrow> json option" where
  "member (JObject kvs) k = map_of kvs k"
| "member j k = None"

text \<open>
  The entry shape the interface description gives for the response list: a record with
  the fields \<^verbatim>\<open>ok\<close>, \<^verbatim>\<open>name\<close>, \<^verbatim>\<open>ms\<close> and one of \<^verbatim>\<open>url\<close>, \<^verbatim>\<open>error\<close>.
\<close>

fun spec_outcome_record :: "json \<Rightarrow> bool" where
  "spec_outcome_record (JObject kvs) =
     (let ks = map fst kvs
      in ''ok'' \<in> set ks \<and> ''name'' \<in> set ks \<and> ''ms'' \<in> set ks \<and>
         (''url'' \<in> set ks \<or> ''error'' \<in> set ks))"
| "spec_outcome_record j = False"

subsection \<open>The shape of a run\<close>

text \<open>
  Auxiliary predicates for the proofs. \<open>bounded_from k C es\<close>: starting with \<open>k\<close> calls
  in flight, the events \<open>es\<close> never bring the number above \<open>C\<close>. \<open>step_shape\<close> and
  \<open>run_shape\<close> collect what the events added by one loop iteration, and by the loop
  from position \<open>i0\<close> on, look like for each way of completing.
\<close>

fun delta :: "event \<Rightarrow> int" where
  "delta (Dispatched i rq) = 1"
| "delta (Settled i) = - 1"
| "delta e = 0"

fun bounded_from :: "int \<Rightarrow> int \<Rightarrow> event list \<Rightarrow> bool" where
  "bounded_from k C [] = (k \<le> C)"
| "bounded_from k C (e # es) = (k \<le> C \<and> bounded_from (k + delta e) C es)"

fun is_success :: "reply \<Rightarrow> bool" where
  "is_success (Success d) = True"
| "is_success r = False"

fun is_failure :: "reply \<Rightarrow> bool" where
  "is_failure (Failure st) = True"
| "is_failure Unreachable = True"
| "is_failure r = False"

definition step_shape :: "backend \<Rightarrow> nat \<Rightarrow> upload_file \<Rightarrow> completion \<Rightarrow> event list \<Rightarrow> bool" where
  "step_shape be i f c t =
     (bounded_from 0 1 t \<and>
      (c \<noteq> Await \<longrightarrow> in_flight t = 0) \<and>
      unlinked t = (if c = Normal then [path f] else []) \<and>
      (\<forall>j r. Dispatched j r \<in> set t \<longrightarrow>
          j = i \<and>
          (\<exists>b. r = inference_request f b) \<and>
          (c = Normal \<longrightarrow> is_success (be j r)) \<and>
          (be j r = Silent \<longrightarrow> c = Await) \<and>
          (is_failure (be j r) \<longrightarrow> (\<exists>e. c = Throw e))) \<and>
      (c = Normal \<longrightarrow> (\<exists>r. Dispatched i r \<in> set t)) \<and>
      (c = Await \<longrightarrow> (\<exists>r. Dispatched i r \<in> set t \<and> be i r = Silent)))"

definition dispatch_facts ::
  "backend \<Rightarrow> nat \<Rightarrow> nat \<Rightarrow> upload_file list \<Rightarrow> completion \<Rightarrow> event list \<Rightarrow> bool" where
  "dispatch_facts be i0 m fl c t =
     (\<forall>j r. Dispatched j r \<in> set t \<longrightarrow>
             i0 \<le> j \<and> j \<le> i0 + m \<and> j < i0 + length fl \<and>
             (\<exists>b. r = inference_request (fl ! (j - i0)) b) \<and>
             (\<not> is_success (be j r) \<longrightarrow> j = i0 + m) \<and>
             (be j r = Silent \<longrightarrow> c = Await) \<and>
             (is_failure (be j r) \<longrightarrow> (\<exists>e. c = Throw e)))"

definition success_facts :: "backend \<Rightarrow> nat \<Rightarrow> nat \<Rightarrow> event list \<Rightarrow> bool" where
  "success_facts be i0 m t =
     (\<forall>j. i0 \<le> j \<and> j < i0 + m \<longrightarrow> (\<exists>r. Dispatched j r \<in> set t \<and> is_success (be j r)))"

definition await_fact :: "backend \<Rightarrow> nat \<Rightarrow> completion \<Rightarrow> event list \<Rightarrow> bool" where
  "await_fact be k c t = (c = Await \<longrightarrow> (\<exists>r. Dispatched k r \<in> set t \<and> be k r = Silent))"

definition run_shape :: "backend \<Rightarrow> nat \<Rightarrow> upload_file list \<Rightarrow> completion \<Rightarrow> event list \<Rightarrow> bool" where
  "run_shape be i0 fl c t =
     (bounded_from 0 1 t \<and>
      (c \<noteq> Await \<longrightarrow> in_flight t = 0) \<and>
      (\<exists>m. m \<le> length fl \<and> (c = Normal) = (m = length fl) \<and>
          unlinked t = map path (take m fl) \<and>
          dispatch_facts be i0 m fl c t \<and>
          success_facts be i0 m t \<and>
          await_fact be (i0 + m) c t))"



subsection \<open>Sample inputs\<close>

text \<open>
  Three stored uploads on a disk that has both directories, a fourth upload with the
  bytes of the first, disks that lack the output directory or hold a regular file
  under its name, and inference engines that
  always succeed, answer the call for one stored upload with status 500, cannot be
  reached, or never answer.
\<close>

definition file_a :: upload_file where
  "file_a = \<lparr>originalname = ''a.jpg'', filename = ''a1'', path = ''uploads/a1''\<rparr>"
definition file_b :: upload_file where
  "file_b = \<lparr>originalname = ''b.jpg'', filename = ''b2'', path = ''uploads/b2''\<rparr>"
definition file_c :: upload_file where
  "file_c = \<lparr>originalname = ''c.jpg'', filename = ''c3'', path = ''uploads/c3''\<rparr>"

definition disk0 :: filesystem where
  "disk0 = [''uploads'' \<mapsto> Dir, ''processed'' \<mapsto> Dir,
            ''uploads/a1'' \<mapsto> File [1], ''uploads/b2'' \<mapsto> File [2], ''uploads/c3'' \<mapsto> File [3]]"

definition file_z :: upload_file where
  "file_z = \<lparr>originalname = ''a.jpg'', filename = ''zz'', path = ''uploads/zz''\<rparr>"

definition disk_no_output :: filesystem where
  "disk_no_output = [''uploads'' \<mapsto> Dir, ''uploads/a1'' \<mapsto> File [1]]"

definition disk_twin :: filesystem where
  "disk_twin = [''uploads'' \<mapsto> Dir, ''processed'' \<mapsto> Dir,
                ''uploads/a1'' \<mapsto> File [1], ''uploads/zz'' \<mapsto> File [1]]"

definition disk_clash :: filesystem where
  "disk_clash = [''processed'' \<mapsto> File []]"

definition engine_ok :: backend where
  "engine_ok i rq = Success (content rq)"

definition engine_fail_on :: "string \<Rightarrow> backend" where
  "engine_fail_on p i rq = (if stream_path rq = p then Failure 500 else Success (content rq))"

definition engine_silent :: backend where
  "engine_silent i rq = Silent"

definition engine_down :: backend where
  "engine_down i rq = Unreachable"

definition out_of_range :: "(string \<times> string) list" where
  "out_of_range = [(''alpha_threshold'', ''-5''), (''trimap_prob_threshold'', ''999'')]"

definition batch :: "upload_file list \<Rightarrow> request" where
  "batch fl = \<lparr>query = [(''object_type'', ''object''), (''alpha_threshold'', ''0'')], files = Some fl\<rparr>"

section \<open>Properties\<close>

subsection \<open>Escaping\<close>

lemma entity_of_safe:
  "set (entity_of c) \<inter> set (js [CHR ''<'', CHR ''>'', CHR 0x22, CHR 0x27]) = {}"
  by (simp add: entity_of_def js_def)

lemma replacer_entity_of:
  "special c \<Longrightarrow>
     (case map_of entity_map [c] of Some e \<Rightarrow> (if e = [] then [] else e) | None \<Rightarrow> [])
       = entity_of c"
  by (auto simp: special_def entity_map_def entity_of_def js_def)

lemma entity_of_plain: "\<not> special c \<Longrightarrow> entity_of c = [c]"
  by (simp add: special_def entity_of_def js_def)

lemma escapeHtml_concat: "escapeHtml s = concat (map entity_of s)"
  unfolding escapeHtml_def
  by (induction s) (simp_all add: replacer_entity_of entity_of_plain)

text \<open>
  C10. For every string, \<open>escapeHtml\<close> replaces each of the five characters
  \<^verbatim>\<open>& < > " '\<close> by its entity and passes every other code unit through unchanged,
  and its result contains none of \<^verbatim>\<open>< > " '\<close>.
\<close>

theorem escapeHtml_entities:
  "escapeHtml s = concat (map entity_of s) \<and>
   set (escapeHtml s) \<inter> set (js [CHR ''<'', CHR ''>'', CHR 0x22, CHR 0x27]) = {}"
proof -
  have "set (concat (map entity_of s)) \<inter> set (js [CHR ''<'', CHR ''>'', CHR 0x22, CHR 0x27]) = {}"
    using entity_of_safe by (induction s) (simp_all add: Int_Un_distrib2)
  then show ?thesis by (simp add: escapeHtml_concat)
qed

subsection \<open>Runs of the handler\<close>

lemmas run_defs = upload_handler_def process_file_def read_file_def writeFileSync_def unlinkSync_def
  axios_settle_def upload_config_def inference_request_def processed_path_def emit_def
  is_dir_def dirname_def ok_response_def error_response_def Let_def

lemmas input_defs = file_a_def file_b_def file_c_def file_z_def disk0_def disk_no_output_def
  disk_twin_def disk_clash_def engine_ok_def engine_fail_on_def
  engine_silent_def engine_down_def out_of_range_def batch_def


lemma in_flight_Cons: "in_flight (e # es) = delta e + in_flight es"
  by (cases e) simp_all

lemma in_flight_append: "in_flight (xs @ ys) = in_flight xs + in_flight ys"
  by (induction xs) (simp_all add: in_flight_Cons)

lemma unlinked_append: "unlinked (xs @ ys) = unlinked xs @ unlinked ys"
  by (induction xs rule: unlinked.induct) simp_all

lemma bounded_from_append:
  "bounded_from k C (xs @ ys) = (bounded_from k C xs \<and> bounded_from (k + in_flight xs) C ys)"
proof (induction xs arbitrary: k)
  case Nil
  show ?case by (cases ys) auto
next
  case (Cons e es)
  show ?case by (auto simp: Cons in_flight_Cons add.assoc)
qed

lemma bounded_from_take: "bounded_from k C tr \<Longrightarrow> k + in_flight (take n tr) \<le> C"
proof (induction tr arbitrary: k n)
  case Nil
  then show ?case by simp
next
  case (Cons e es)
  show ?case
  proof (cases n)
    case 0
    with Cons.prems show ?thesis by simp
  next
    case (Suc m)
    from Cons.prems have "bounded_from (k + delta e) C es" by simp
    from Cons.IH [OF this, of m] show ?thesis by (simp add: Suc in_flight_Cons)
  qed
qed

lemma process_file_trace:
  assumes "process_file be i f S = (c, S')"
  shows "\<exists>t. trace S' = trace S @ t \<and> step_shape be i f c t"
  using assms
  by (auto simp: process_file_def Let_def emit_def step_shape_def axios_settle_def upload_config_def
           split: sum.splits promise.splits reply.splits)

lemma step_shape_bounded: "step_shape be i f c t \<Longrightarrow> bounded_from 0 1 t"
  by (simp add: step_shape_def)

lemma step_shape_settled: "step_shape be i f c t \<Longrightarrow> c \<noteq> Await \<Longrightarrow> in_flight t = 0"
  by (simp add: step_shape_def)

lemma step_shape_unlinked:
  "step_shape be i f c t \<Longrightarrow> unlinked t = (if c = Normal then [path f] else [])"
  by (simp add: step_shape_def)

lemma step_shape_dispatch:
  "step_shape be i f c t \<Longrightarrow> Dispatched j r \<in> set t \<Longrightarrow>
     j = i \<and> (\<exists>b. r = inference_request f b) \<and>
     (c = Normal \<longrightarrow> is_success (be j r)) \<and>
     (be j r = Silent \<longrightarrow> c = Await) \<and>
     (is_failure (be j r) \<longrightarrow> (\<exists>e. c = Throw e))"
  unfolding step_shape_def by blast

lemma step_shape_normal: "step_shape be i f Normal t \<Longrightarrow> \<exists>r. Dispatched i r \<in> set t"
  by (simp add: step_shape_def)

lemma step_shape_await:
  "step_shape be i f Await t \<Longrightarrow> \<exists>r. Dispatched i r \<in> set t \<and> be i r = Silent"
  by (simp add: step_shape_def)

lemma run_shape_stop:
  assumes "step_shape be i f c t" and "c \<noteq> Normal"
  shows "run_shape be i (f # rest) c t"
proof -
  have d: "dispatch_facts be i 0 (f # rest) c t"
    unfolding dispatch_facts_def
  proof (intro allI impI)
    fix j r assume "Dispatched j r \<in> set t"
    with assms(1) have "j = i" "\<exists>b. r = inference_request f b"
        "be j r = Silent \<longrightarrow> c = Await" "is_failure (be j r) \<longrightarrow> (\<exists>e. c = Throw e)"
      unfolding step_shape_def by blast+
    then show "i \<le> j \<and> j \<le> i + 0 \<and> j < i + length (f # rest) \<and>
             (\<exists>b. r = inference_request ((f # rest) ! (j - i)) b) \<and>
             (\<not> is_success (be j r) \<longrightarrow> j = i + 0) \<and>
             (be j r = Silent \<longrightarrow> c = Await) \<and>
             (is_failure (be j r) \<longrightarrow> (\<exists>e. c = Throw e))"
      by simp
  qed
  have s: "success_facts be i 0 t"
    unfolding success_facts_def by auto
  have a: "await_fact be (i + 0) c t"
    using assms(1) unfolding step_shape_def await_fact_def by simp
  have b: "bounded_from 0 1 t" and fl: "c \<noteq> Await \<longrightarrow> in_flight t = 0"
    and u: "unlinked t = map path (take 0 (f # rest))"
    using assms unfolding step_shape_def by simp_all
  have m: "0 \<le> length (f # rest)" "(c = Normal) = (0 = length (f # rest))"
    using assms(2) by simp_all
  show ?thesis
    unfolding run_shape_def
    by (intro conjI exI [of _ 0]) (fact b fl m u d s a)+
qed

lemma run_shape_continue:
  assumes "step_shape be i f Normal t1" and "run_shape be (Suc i) rest c t2"
  shows "run_shape be i (f # rest) c (t1 @ t2)"
proof -
  from assms(2) obtain m where m: "m \<le> length rest" "(c = Normal) = (m = length rest)"
      "unlinked t2 = map path (take m rest)"
      "dispatch_facts be (Suc i) m rest c t2"
      "success_facts be (Suc i) m t2"
      "await_fact be (Suc i + m) c t2"
    unfolding run_shape_def by blast
  from step_shape_normal [OF assms(1)] obtain r1 where r1: "Dispatched i r1 \<in> set t1"
    by blast
  from step_shape_dispatch [OF assms(1) r1] have r1s: "is_success (be i r1)" by simp
  have t1: "bounded_from 0 1 t1" "in_flight t1 = 0" "unlinked t1 = [path f]"
    using step_shape_bounded [OF assms(1)] step_shape_settled [OF assms(1)]
      step_shape_unlinked [OF assms(1)] by simp_all
  have t2: "bounded_from 0 1 t2" "c \<noteq> Await \<longrightarrow> in_flight t2 = 0"
    using assms(2) unfolding run_shape_def by blast+
  have b: "bounded_from 0 1 (t1 @ t2)"
    using t1 t2 by (simp add: bounded_from_append)
  have fl: "c \<noteq> Await \<longrightarrow> in_flight (t1 @ t2) = 0"
    using t1 t2 by (simp add: in_flight_append)
  have u: "unlinked (t1 @ t2) = map path (take (Suc m) (f # rest))"
    using t1 m(3) by (simp add: unlinked_append)
  have d: "dispatch_facts be i (Suc m) (f # rest) c (t1 @ t2)"
    unfolding dispatch_facts_def
  proof (intro allI impI)
    fix j r assume "Dispatched j r \<in> set (t1 @ t2)"
    then consider "Dispatched j r \<in> set t1" | "Dispatched j r \<in> set t2" by auto
    then show "i \<le> j \<and> j \<le> i + Suc m \<and> j < i + length (f # rest) \<and>
             (\<exists>b. r = inference_request ((f # rest) ! (j - i)) b) \<and>
             (\<not> is_success (be j r) \<longrightarrow> j = i + Suc m) \<and>
             (be j r = Silent \<longrightarrow> c = Await) \<and>
             (is_failure (be j r) \<longrightarrow> (\<exists>e. c = Throw e))"
    proof cases
      case 1
      from step_shape_dispatch [OF assms(1) 1]
      have "j = i" "is_success (be j r)" "\<exists>b. r = inference_request f b" by blast+
      then show ?thesis by (cases "be j r") simp_all
    next
      case 2
      with m(4) have 3: "Suc i \<le> j \<and> j \<le> Suc i + m \<and> j < Suc i + length rest \<and>
             (\<exists>b. r = inference_request (rest ! (j - Suc i)) b) \<and>
             (\<not> is_success (be j r) \<longrightarrow> j = Suc i + m) \<and>
             (be j r = Silent \<longrightarrow> c = Await) \<and>
             (is_failure (be j r) \<longrightarrow> (\<exists>e. c = Throw e))"
        unfolding dispatch_facts_def by blast
      then have "j - i = Suc (j - Suc i)" by arith
      then have "(f # rest) ! (j - i) = rest ! (j - Suc i)" by simp
      with 3 show ?thesis by simp
    qed
  qed
  have s: "success_facts be i (Suc m) (t1 @ t2)"
    unfolding success_facts_def
  proof (intro allI impI)
    fix j assume j: "i \<le> j \<and> j < i + Suc m"
    show "\<exists>r. Dispatched j r \<in> set (t1 @ t2) \<and> is_success (be j r)"
    proof (cases "j = i")
      case True
      with r1 r1s show ?thesis by auto
    next
      case False
      with j have "Suc i \<le> j \<and> j < Suc i + m" by simp
      with m(5) obtain r where "Dispatched j r \<in> set t2" "is_success (be j r)"
        unfolding success_facts_def by blast
      then show ?thesis by auto
    qed
  qed
  have a: "await_fact be (i + Suc m) c (t1 @ t2)"
    using m(6) unfolding await_fact_def by auto
  have m': "Suc m \<le> length (f # rest)" "(c = Normal) = (Suc m = length (f # rest))"
    using m(1,2) by simp_all
  show ?thesis
    unfolding run_shape_def
    by (intro conjI exI [of _ "Suc m"]) (fact b fl m' u d s a)+
qed

lemma for_files_trace:
  "for_files be i fl S = (c, S') \<Longrightarrow> \<exists>t. trace S' = trace S @ t \<and> run_shape be i fl c t"
proof (induction fl arbitrary: i S)
  case Nil
  then show ?case
    by (auto simp: run_shape_def dispatch_facts_def success_facts_def await_fact_def)
next
  case (Cons f rest)
  obtain c1 S1 where st: "process_file be i f S = (c1, S1)" by (cases "process_file be i f S")
  from process_file_trace [OF st] obtain t1
    where t1: "trace S1 = trace S @ t1" "step_shape be i f c1 t1" by blast
  show ?case
  proof (cases "c1 = Normal")
    case True
    with Cons.prems st have "for_files be (Suc i) rest S1 = (c, S')" by simp
    from Cons.IH [OF this] obtain t2
      where t2: "trace S' = trace S1 @ t2" "run_shape be (Suc i) rest c t2" by blast
    from t1 True t2 have "run_shape be i (f # rest) c (t1 @ t2)"
      by (auto intro: run_shape_continue)
    with t1 t2 show ?thesis by auto
  next
    case False
    with Cons.prems st have "c = c1" "S' = S1" by (cases c1; simp)+
    with t1 False show ?thesis by (auto intro: run_shape_stop)
  qed
qed

lemma process_file_images:
  "process_file be i f S = (Normal, S') \<Longrightarrow>
     processedImages S' = processedImages S @ [processed_path f]"
  by (auto simp: process_file_def Let_def emit_def split: sum.splits promise.splits)

lemma for_files_images:
  "for_files be i fl S = (Normal, S') \<Longrightarrow>
     processedImages S' = processedImages S @ map processed_path fl"
proof (induction fl arbitrary: i S)
  case Nil
  then show ?case by simp
next
  case (Cons f rest)
  obtain c1 S1 where st: "process_file be i f S = (c1, S1)" by (cases "process_file be i f S")
  with Cons.prems have c1: "c1 = Normal" by (cases c1) auto
  with Cons.prems st have "for_files be (Suc i) rest S1 = (Normal, S')" by simp
  from Cons.IH [OF this] process_file_images [of be i f S S1] st c1 show ?case by simp
qed


lemma is_failure_iff: "is_failure r = ((\<exists>st. r = Failure st) \<or> r = Unreachable)"
  by (cases r) simp_all

lemma in_set_append_logged: "(Dispatched j r \<in> set (t @ [Logged e])) = (Dispatched j r \<in> set t)"
  by simp

lemma run_shape_logged:
  assumes "run_shape be i fl (Throw e) t"
  shows "run_shape be i fl (Throw e) (t @ [Logged e'])"
proof -
  from assms obtain m where m: "m \<le> length fl" "(Throw e = Normal) = (m = length fl)"
      "unlinked t = map path (take m fl)"
      "dispatch_facts be i m fl (Throw e) t"
      "success_facts be i m t"
      "await_fact be (i + m) (Throw e) t"
    unfolding run_shape_def by blast
  have t: "bounded_from 0 1 t" "in_flight t = 0"
    using assms unfolding run_shape_def by simp_all
  have b: "bounded_from 0 1 (t @ [Logged e'])"
    using t by (simp add: bounded_from_append)
  have fl: "Throw e \<noteq> Await \<longrightarrow> in_flight (t @ [Logged e']) = 0"
    using t by (simp add: in_flight_append)
  have u: "unlinked (t @ [Logged e']) = map path (take m fl)"
    using m(3) by (simp add: unlinked_append)
  have d: "dispatch_facts be i m fl (Throw e) (t @ [Logged e'])"
    using m(4) unfolding dispatch_facts_def in_set_append_logged .
  have s: "success_facts be i m (t @ [Logged e'])"
    using m(5) unfolding success_facts_def in_set_append_logged .
  have a: "await_fact be (i + m) (Throw e) (t @ [Logged e'])"
    by (simp add: await_fact_def)
  show ?thesis
    unfolding run_shape_def
    by (intro conjI exI [of _ m]) (fact b fl m(1,2) u d s a)+
qed

lemma upload_handler_shape:
  assumes "files rq = Some fl" and "upload_handler be F rq = (res, S)"
  shows "\<exists>c. run_shape be 0 fl c (trace S) \<and>
           (c = Normal \<longrightarrow> res = Some (ok_response (map processed_path fl))) \<and>
           ((\<exists>e. c = Throw e) \<longrightarrow> res = Some error_response) \<and>
           (c = Await \<longrightarrow> res = None)"
proof -
  define S0 where "S0 = \<lparr>fs = F, processedImages = [], trace = []\<rparr>"
  obtain c S1 where run: "for_files be 0 fl S0 = (c, S1)" by (cases "for_files be 0 fl S0")
  from for_files_trace [OF run] have sh: "run_shape be 0 fl c (trace S1)"
    by (simp add: S0_def)
  show ?thesis
  proof (cases c)
    case Normal
    with run for_files_images [of be 0 fl S0 S1]
    have "processedImages S1 = map processed_path fl" by (simp add: S0_def)
    with assms run Normal have "res = Some (ok_response (map processed_path fl))" "S = S1"
      by (simp_all add: upload_handler_def S0_def)
    with sh Normal show ?thesis by auto
  next
    case (Throw e)
    with assms run have "res = Some error_response" "S = emit (Logged e) S1"
      by (simp_all add: upload_handler_def S0_def)
    with sh Throw run_shape_logged [of be 0 fl e "trace S1" e] show ?thesis
      by (auto simp: emit_def)
  next
    case Await
    with assms run have "res = None" "S = S1"
      by (simp_all add: upload_handler_def S0_def)
    with sh Await show ?thesis by auto
  qed
qed

lemma outcome_entries_ok: "outcome_entries (Some (ok_response ps)) = map JString ps"
  by (simp add: outcome_entries_def ok_response_def)

lemma outcome_entries_error: "outcome_entries (Some error_response) = []"
  by (simp add: outcome_entries_def error_response_def)


lemma shape_dispatch:
  assumes "run_shape be 0 fl c t" and "Dispatched j r \<in> set t"
  shows "j < length fl \<and> (\<exists>f \<in> set fl. \<exists>b. r = inference_request f b) \<and>
         (be j r = Silent \<longrightarrow> c = Await) \<and>
         (is_failure (be j r) \<longrightarrow> (\<exists>e. c = Throw e)) \<and>
         (\<not> is_success (be j r) \<longrightarrow> (\<forall>j' r'. Dispatched j' r' \<in> set t \<longrightarrow> j' \<le> j))"
proof -
  from assms(1) obtain m where m: "dispatch_facts be 0 m fl c t"
    unfolding run_shape_def by blast
  from m assms(2) have a: "j \<le> 0 + m \<and> j < 0 + length fl \<and>
             (\<exists>b. r = inference_request (fl ! (j - 0)) b) \<and>
             (\<not> is_success (be j r) \<longrightarrow> j = 0 + m) \<and>
             (be j r = Silent \<longrightarrow> c = Await) \<and>
             (is_failure (be j r) \<longrightarrow> (\<exists>e. c = Throw e))"
    unfolding dispatch_facts_def by blast
  then have "fl ! j \<in> set fl" by simp
  with a have f: "\<exists>f \<in> set fl. \<exists>b. r = inference_request f b" by auto
  have "\<forall>j' r'. Dispatched j' r' \<in> set t \<longrightarrow> j' \<le> m"
    using m unfolding dispatch_facts_def by auto
  with a f show ?thesis by auto
qed

lemma shape_dispatch_item:
  assumes "run_shape be 0 fl c t" and "Dispatched j r \<in> set t"
  shows "j < length fl \<and> (\<exists>b. r = inference_request (fl ! j) b)"
proof -
  from assms(1) obtain m where m: "dispatch_facts be 0 m fl c t"
    unfolding run_shape_def by blast
  from m assms(2) have "j < 0 + length fl \<and> (\<exists>b. r = inference_request (fl ! (j - 0)) b)"
    unfolding dispatch_facts_def by blast
  then show ?thesis by simp
qed

lemma in_flight_at_most_one:
  "in_flight (take n (trace (snd (upload_handler be F rq)))) \<le> 1"
proof (cases "files rq")
  case None
  then have "trace (snd (upload_handler be F rq)) = [Logged TypeError]"
    by (simp add: upload_handler_def emit_def)
  then show ?thesis by (cases n) simp_all
next
  case (Some fl)
  obtain res S where r: "upload_handler be F rq = (res, S)" by (cases "upload_handler be F rq")
  from upload_handler_shape [OF Some r] have "bounded_from 0 1 (trace S)"
    unfolding run_shape_def by blast
  from bounded_from_take [OF this, of n] r show ?thesis by simp
qed

lemma for_files_extends: "for_files be i fl S = (c, S') \<Longrightarrow> \<exists>t. trace S' = trace S @ t"
  using for_files_trace by blast

lemma process_file_first:
  assumes "fs S = F" and "F (path f) = Some (File b)" and "process_file be i f S = (c, S')"
  shows "\<exists>t. trace S' = trace S @ Dispatched i (inference_request f b) # t"
  using assms
  by (auto simp: process_file_def read_file_def Let_def emit_def
           split: sum.splits promise.splits)

lemma upload_handler_first:
  assumes "files rq = Some (f # fl)" and "F (path f) = Some (File b)"
  shows "\<exists>t. trace (snd (upload_handler be F rq)) = Dispatched 0 (inference_request f b) # t"
proof -
  define S0 where "S0 = \<lparr>fs = F, processedImages = [], trace = []\<rparr>"
  obtain c1 S1 where st: "process_file be 0 f S0 = (c1, S1)" by (cases "process_file be 0 f S0")
  have "fs S0 = F" by (simp add: S0_def)
  from process_file_first [OF this assms(2) st] obtain t1
    where t1: "trace S1 = Dispatched 0 (inference_request f b) # t1" by (auto simp: S0_def)
  obtain c S2 where run: "for_files be 0 (f # fl) S0 = (c, S2)"
    by (cases "for_files be 0 (f # fl) S0")
  have "\<exists>t. trace S2 = trace S1 @ t"
  proof (cases c1)
    case Normal
    with st run have "for_files be (Suc 0) fl S1 = (c, S2)" by simp
    then show ?thesis by (rule for_files_extends)
  next
    case (Throw e)
    with st run show ?thesis by simp
  next
    case Await
    with st run show ?thesis by simp
  qed
  with t1 obtain t2 where t2: "trace S2 = Dispatched 0 (inference_request f b) # t2" by auto
  from assms(1) run have "trace (snd (upload_handler be F rq)) = trace S2
      \<or> (\<exists>e. trace (snd (upload_handler be F rq)) = trace S2 @ [Logged e])"
    by (cases c) (simp_all add: upload_handler_def S0_def emit_def)
  with t2 show ?thesis by auto
qed













lemma process_file_reads:
  assumes "process_file be i f S = (c, S')"
  shows "\<exists>t. trace S' = trace S @ t \<and>
           (\<forall>j r. Dispatched j r \<in> set t \<longrightarrow>
              stream_path r = path f \<and> fs S (path f) = Some (File (content r))) \<and>
           (c = Normal \<longrightarrow> (\<exists>d. fs S' = ((fs S)(processed_path f \<mapsto> File d))(path f := None)))"
  using assms
  by (auto simp: process_file_def read_file_def writeFileSync_def unlinkSync_def
        inference_request_def Let_def emit_def
        split: sum.splits promise.splits option.splits node.splits if_splits)

lemma for_files_reads:
  assumes "for_files be i fl S = (c, S')" and "distinct (map path fl)"
    and "\<forall>f \<in> set fl. processed_path f \<notin> path ` set fl"
  shows "\<exists>t. trace S' = trace S @ t \<and>
           (\<forall>j r. Dispatched j r \<in> set t \<longrightarrow>
              stream_path r \<in> path ` set fl \<and>
              fs S (stream_path r) = Some (File (content r)))"
  using assms
proof (induction fl arbitrary: i S)
  case Nil
  then show ?case by simp
next
  case (Cons f rest)
  obtain c1 S1 where st: "process_file be i f S = (c1, S1)" by (cases "process_file be i f S")
  from process_file_reads [OF st] obtain t1 where t1: "trace S1 = trace S @ t1"
      "\<forall>j r. Dispatched j r \<in> set t1 \<longrightarrow>
          stream_path r = path f \<and> fs S (path f) = Some (File (content r))"
      "c1 = Normal \<longrightarrow> (\<exists>d. fs S1 = ((fs S)(processed_path f \<mapsto> File d))(path f := None))"
    by blast
  show ?case
  proof (cases "c1 = Normal")
    case False
    with Cons.prems(1) st have "S' = S1" by (cases c1; simp)
    with t1 show ?thesis by auto
  next
    case True
    with Cons.prems(1) st have run: "for_files be (Suc i) rest S1 = (c, S')" by simp
    from Cons.prems(2,3) have d: "distinct (map path rest)"
      and p: "\<forall>g \<in> set rest. processed_path g \<notin> path ` set rest"
      and nf: "path f \<notin> path ` set rest" and pf: "processed_path f \<notin> path ` set rest"
      by auto
    from Cons.IH [OF run d p] obtain t2 where t2: "trace S' = trace S1 @ t2"
      "\<forall>j r. Dispatched j r \<in> set t2 \<longrightarrow>
          stream_path r \<in> path ` set rest \<and> fs S1 (stream_path r) = Some (File (content r))"
      by blast
    from t1(3) True obtain d0
      where S1: "fs S1 = ((fs S)(processed_path f \<mapsto> File d0))(path f := None)" by blast
    have "stream_path r \<in> path ` set (f # rest) \<and>
            fs S (stream_path r) = Some (File (content r))"
      if "Dispatched j r \<in> set (t1 @ t2)" for j r
    proof -
      from that consider "Dispatched j r \<in> set t1" | "Dispatched j r \<in> set t2" by auto
      then show ?thesis
      proof cases
        case 1
        with t1(2) show ?thesis by auto
      next
        case 2
        with t2(2) have in_rest: "stream_path r \<in> path ` set rest"
          and rd: "fs S1 (stream_path r) = Some (File (content r))" by blast+
        from in_rest nf pf have "stream_path r \<noteq> path f" "stream_path r \<noteq> processed_path f"
          by auto
        with rd S1 have "fs S (stream_path r) = Some (File (content r))" by simp
        with in_rest show ?thesis by auto
      qed
    qed
    with t1(1) t2(1) show ?thesis by auto
  qed
qed

lemma upload_handler_reads:
  assumes "files rq = Some fl" and "distinct (map path fl)"
    and "\<forall>f \<in> set fl. processed_path f \<notin> path ` set fl"
    and "Dispatched j r \<in> set (trace (snd (upload_handler be F rq)))"
  shows "F (stream_path r) = Some (File (content r))"
proof -
  define S0 where "S0 = \<lparr>fs = F, processedImages = [], trace = []\<rparr>"
  obtain c S1 where run: "for_files be 0 fl S0 = (c, S1)" by (cases "for_files be 0 fl S0")
  from for_files_reads [OF run assms(2,3)]
  have r: "\<forall>j r. Dispatched j r \<in> set (trace S1) \<longrightarrow> F (stream_path r) = Some (File (content r))"
    by (simp add: S0_def)
  from assms(1) run have "trace (snd (upload_handler be F rq)) = trace S1
      \<or> (\<exists>e. trace (snd (upload_handler be F rq)) = trace S1 @ [Logged e])"
    by (cases c) (simp_all add: upload_handler_def S0_def emit_def)
  with assms(4) have "Dispatched j r \<in> set (trace S1)" by auto
  with r show ?thesis by blast
qed

subsection \<open>Sample runs\<close>

lemma run_abc_ok:
  "fst (upload_handler engine_ok disk0 (batch [file_a, file_b, file_c]))
     = Some (ok_response [''processed/a1.png'', ''processed/b2.png'', ''processed/c3.png''])"
  by (simp add: run_defs input_defs)

lemma run_abc_ok_trace:
  "trace (snd (upload_handler engine_ok disk0 (batch [file_a, file_b, file_c])))
     = [Dispatched 0 (inference_request file_a [1]), Settled 0,
        Wrote ''processed/a1.png'', Unlinked ''uploads/a1'',
        Dispatched 1 (inference_request file_b [2]), Settled 1,
        Wrote ''processed/b2.png'', Unlinked ''uploads/b2'',
        Dispatched 2 (inference_request file_c [3]), Settled 2,
        Wrote ''processed/c3.png'', Unlinked ''uploads/c3'']"
  by (simp add: run_defs input_defs)

lemma run_abc_fail:
  "fst (upload_handler (engine_fail_on ''uploads/b2'') disk0 (batch [file_a, file_b, file_c]))
     = Some error_response"
  by (simp add: run_defs input_defs)

lemma run_abc_fail_trace:
  "trace (snd (upload_handler (engine_fail_on ''uploads/b2'') disk0 (batch [file_a, file_b, file_c])))
     = [Dispatched 0 (inference_request file_a [1]), Settled 0,
        Wrote ''processed/a1.png'', Unlinked ''uploads/a1'',
        Dispatched 1 (inference_request file_b [2]), Settled 1,
        Logged (ERR_BAD_RESPONSE 500)]"
  by (simp add: run_defs input_defs)

lemma run_a_silent_trace:
  "trace (snd (upload_handler engine_silent disk0 (batch [file_a])))
     = [Dispatched 0 (inference_request file_a [1])]"
  by (simp add: run_defs input_defs)

lemma run_a_down_trace:
  "trace (snd (upload_handler engine_down disk0 (batch [file_a])))
     = [Dispatched 0 (inference_request file_a [1]), Settled 0, Logged ECONNREFUSED]"
  by (simp add: run_defs input_defs)

lemma split_run: "upload_handler be F rq = (fst (upload_handler be F rq), snd (upload_handler be F rq))"
  by simp

lemma files_batch: "files (batch fl) = Some fl"
  by (simp add: batch_def)

subsection \<open>The entries of the response\<close>




subsection \<open>A failing inference call\<close>

text \<open>
  C2, as the handler has it. An inference call that fails, by a non-success status or
  by a connection failure, ends the whole batch: the handler answers with the single
  error response of status 500, which carries no outcome record for any item, and no
  inference call is made for any later item.
\<close>

theorem failed_call_ends_batch:
  assumes "files rq = Some fl" and "upload_handler be F rq = (res, S)"
    and "Dispatched i r \<in> set (trace S)"
    and "be i r = Failure st \<or> be i r = Unreachable"
  shows "res = Some error_response \<and> outcome_entries res = [] \<and> i < length fl \<and>
         (\<forall>j r'. Dispatched j r' \<in> set (trace S) \<longrightarrow> j \<le> i)"
proof -
  from upload_handler_shape [OF assms(1,2)] obtain c where c: "run_shape be 0 fl c (trace S)"
      "(\<exists>e. c = Throw e) \<longrightarrow> res = Some error_response"
    by blast
  from assms(4) have f: "is_failure (be i r)" "\<not> is_success (be i r)" by auto
  from shape_dispatch [OF c(1) assms(3)] f c(2) show ?thesis
    by (simp add: outcome_entries_error)
qed

theorem failed_call_ends_batch_witness:
  "files (batch [file_a, file_b, file_c]) = Some [file_a, file_b, file_c] \<and>
   Dispatched 1 (inference_request file_b [2])
     \<in> set (trace (snd (upload_handler (engine_fail_on ''uploads/b2'') disk0 (batch [file_a, file_b, file_c])))) \<and>
   engine_fail_on ''uploads/b2'' 1 (inference_request file_b [2]) = Failure 500 \<and>
   fst (upload_handler (engine_fail_on ''uploads/b2'') disk0 (batch [file_a, file_b, file_c]))
     = Some error_response \<and>
   (1::nat) < length [file_a, file_b, file_c]"
proof -
  let ?run = "upload_handler (engine_fail_on ''uploads/b2'') disk0 (batch [file_a, file_b, file_c])"
  have h3: "Dispatched 1 (inference_request file_b [2]) \<in> set (trace (snd ?run))"
    by (simp add: run_abc_fail_trace)
  have f: "engine_fail_on ''uploads/b2'' 1 (inference_request file_b [2]) = Failure 500"
    by (simp add: engine_fail_on_def inference_request_def file_b_def)
  then have h4: "engine_fail_on ''uploads/b2'' 1 (inference_request file_b [2]) = Failure 500
              \<or> engine_fail_on ''uploads/b2'' 1 (inference_request file_b [2]) = Unreachable"
    by simp
  from failed_call_ends_batch [OF files_batch [of "[file_a, file_b, file_c]"] split_run h3 h4]
  show ?thesis using h3 f by (simp add: files_batch)
qed

theorem failure_isolation_counterexample:
  "outcome_entries (fst (upload_handler (engine_fail_on ''uploads/b2'') disk0 (batch [file_a, file_b, file_c])))
     = [] \<and>
   outcome_entries (fst (upload_handler engine_ok disk0 (batch [file_a, file_b, file_c])))
     = [JString ''processed/a1.png'', JString ''processed/b2.png'', JString ''processed/c3.png''] \<and>
   fs (snd (upload_handler (engine_fail_on ''uploads/b2'') disk0 (batch [file_a, file_b, file_c])))
      ''processed/c3.png'' = None \<and>
   fs (snd (upload_handler engine_ok disk0 (batch [file_a, file_b, file_c])))
      ''processed/c3.png'' = Some (File [3])"
proof -
  have "fs (snd (upload_handler (engine_fail_on ''uploads/b2'') disk0 (batch [file_a, file_b, file_c])))
          ''processed/c3.png'' = None"
    by (simp add: run_defs input_defs)
  moreover have "fs (snd (upload_handler engine_ok disk0 (batch [file_a, file_b, file_c])))
          ''processed/c3.png'' = Some (File [3])"
    by (simp add: run_defs input_defs)
  ultimately show ?thesis
    by (simp add: run_abc_fail run_abc_ok outcome_entries_error outcome_entries_ok)
qed

subsection \<open>The quality parameters\<close>

text \<open>
  C3, as the handler has it. The handler never reads the quality parameters and so
  rejects no batch for them: with any query string it behaves exactly as with any
  other, and as soon as the first stored upload can be read the first thing it does is
  to send that item's inference call.
\<close>

theorem parameters_not_validated:
  "upload_handler be F (rq\<lparr>query := q\<rparr>) = upload_handler be F rq \<and>
   (files rq = Some (f # fl) \<and> F (path f) = Some (File b) \<longrightarrow>
      (\<exists>t. trace (snd (upload_handler be F (rq\<lparr>query := q\<rparr>)))
              = Dispatched 0 (inference_request f b) # t))"
proof -
  have 1: "upload_handler be F (rq\<lparr>query := q\<rparr>) = upload_handler be F rq"
    by (simp add: upload_handler_def)
  show ?thesis
    unfolding 1 using upload_handler_first [of rq f fl F b be] by blast
qed

theorem parameters_not_validated_witness:
  "files (batch [file_a]) = Some [file_a] \<and>
   disk0 (path file_a) = Some (File [1]) \<and>
   hd (trace (snd (upload_handler engine_ok disk0 ((batch [file_a])\<lparr>query := out_of_range\<rparr>))))
     = Dispatched 0 (inference_request file_a [1])"
proof -
  have h: "files (batch [file_a]) = Some [file_a] \<and> disk0 (path file_a) = Some (File [1])"
    by (simp add: files_batch disk0_def file_a_def)
  from parameters_not_validated [where be = engine_ok and F = disk0 and rq = "batch [file_a]"
      and q = out_of_range and f = file_a and fl = "[]" and b = "[1]"] h
  obtain t where
    "trace (snd (upload_handler engine_ok disk0 ((batch [file_a])\<lparr>query := out_of_range\<rparr>)))
       = Dispatched 0 (inference_request file_a [1]) # t"
    by blast
  with h show ?thesis by simp
qed

theorem validation_counterexample:
  "query ((batch [file_a])\<lparr>query := out_of_range\<rparr>)
     = [(''alpha_threshold'', ''-5''), (''trimap_prob_threshold'', ''999'')] \<and>
   fst (upload_handler engine_ok disk0 ((batch [file_a])\<lparr>query := out_of_range\<rparr>))
     = Some (ok_response [''processed/a1.png'']) \<and>
   dispatched (trace (snd (upload_handler engine_ok disk0 ((batch [file_a])\<lparr>query := out_of_range\<rparr>))))
     = [inference_request file_a [1]]"
  by (simp add: run_defs input_defs)

subsection \<open>Releasing the stored uploads\<close>

text \<open>
  C4. Every item's stored upload is to be deleted exactly once by the time the handler
  finishes, on every exit path. The handler deletes an upload only as the last step of
  that item's successful processing: with two uploads and an inference engine that
  answers the first call with status 500, the handler finishes with the error response
  having deleted nothing, and both stored uploads are still on the disk.
\<close>

theorem upload_cleanup_leak:
  "fst (upload_handler (engine_fail_on ''uploads/a1'') disk0 (batch [file_a, file_b])) = Some error_response \<and>
   unlinked (trace (snd (upload_handler (engine_fail_on ''uploads/a1'') disk0 (batch [file_a, file_b])))) = [] \<and>
   fs (snd (upload_handler (engine_fail_on ''uploads/a1'') disk0 (batch [file_a, file_b]))) (path file_a)
     = Some (File [1]) \<and>
   fs (snd (upload_handler (engine_fail_on ''uploads/a1'') disk0 (batch [file_a, file_b]))) (path file_b)
     = Some (File [2])"
  by (simp add: run_defs input_defs)

subsection \<open>The body of the response\<close>

text \<open>
  C5, as the handler has it. Every response of the handler to a batch is either the
  status 200 response whose JSON body is an object with the single field
  \<^verbatim>\<open>processedImages\<close>, the ordered list of the output path strings
  \<^verbatim>\<open>processed/<filename>.png\<close>, one per item in submission order, or the status 500
  response whose body is the plain text \<^verbatim>\<open>Error processing images\<close>. The body has no
  field \<^verbatim>\<open>results\<close>, and its entries are strings: none is a record with the fields
  \<^verbatim>\<open>ok\<close>, \<^verbatim>\<open>url\<close> or \<^verbatim>\<open>error\<close>, \<^verbatim>\<open>name\<close> and \<^verbatim>\<open>ms\<close>.
\<close>

theorem upload_body:
  assumes "files rq = Some fl" and "upload_handler be F rq = (Some res, S)"
  shows "(status res = 200 \<and>
          body res = JsonBody (JObject [(''processedImages'',
                        JArray (map (\<lambda>f. JString (processed_path f)) fl))]) \<and>
          member (JObject [(''processedImages'',
                        JArray (map (\<lambda>f. JString (processed_path f)) fl))]) ''results'' = None \<and>
          \<not> list_ex spec_outcome_record (outcome_entries (Some res)))
       \<or> (status res = 500 \<and> body res = TextBody ''Error processing images'')"
proof -
  from upload_handler_shape [OF assms] obtain c where
      c: "c = Normal \<longrightarrow> Some res = Some (ok_response (map processed_path fl))"
      "(\<exists>e. c = Throw e) \<longrightarrow> Some res = Some error_response"
      "c = Await \<longrightarrow> Some res = None"
    by blast
  have strings: "\<not> list_ex spec_outcome_record (map JString ps)" for ps
    by (induction ps) simp_all
  show ?thesis
  proof (cases c)
    case Normal
    with c(1) have r: "res = ok_response (map processed_path fl)" by simp
    have "\<not> list_ex spec_outcome_record (outcome_entries (Some res))"
      unfolding r outcome_entries_ok by (rule strings)
    with r show ?thesis by (simp add: ok_response_def comp_def)
  next
    case (Throw e)
    with c(2) show ?thesis by (simp add: error_response_def)
  next
    case Await
    with c(3) show ?thesis by simp
  qed
qed

theorem upload_body_witness:
  "files (batch [file_a]) = Some [file_a] \<and>
   status (ok_response [''processed/a1.png'']) = 200 \<and>
   body (ok_response [''processed/a1.png''])
     = JsonBody (JObject [(''processedImages'', JArray [JString ''processed/a1.png''])])"
proof -
  have r: "upload_handler engine_ok disk0 (batch [file_a])
        = (Some (ok_response [''processed/a1.png'']),
           snd (upload_handler engine_ok disk0 (batch [file_a])))"
    by (simp add: run_defs input_defs)
  have n: "status (ok_response [''processed/a1.png'']) \<noteq> 500"
    by (simp add: ok_response_def)
  from upload_body [OF files_batch [of "[file_a]"] r] n
  have "status (ok_response [''processed/a1.png'']) = 200 \<and>
        body (ok_response [''processed/a1.png''])
          = JsonBody (JObject [(''processedImages'',
                        JArray (map (\<lambda>f. JString (processed_path f)) [file_a]))])"
    by blast
  then show ?thesis
    by (simp add: files_batch processed_path_def file_a_def)
qed

theorem upload_body_counterexample:
  "fst (upload_handler engine_ok disk0 (batch [file_a]))
     = Some \<lparr>status = 200,
             body = JsonBody (JObject [(''processedImages'', JArray [JString ''processed/a1.png''])])\<rparr> \<and>
   list_all spec_outcome_record
     (outcome_entries (fst (upload_handler engine_ok disk0 (batch [file_a])))) = False \<and>
   member (JObject [(''processedImages'', JArray [JString ''processed/a1.png''])]) ''results''
     = None"
proof -
  have 1: "fst (upload_handler engine_ok disk0 (batch [file_a]))
     = Some \<lparr>status = 200,
             body = JsonBody (JObject [(''processedImages'', JArray [JString ''processed/a1.png''])])\<rparr>"
    by (simp add: run_defs input_defs)
  show ?thesis
    unfolding 1 by (simp add: outcome_entries_def)
qed

subsection \<open>An inference engine that does not answer\<close>

text \<open>
  C6, as the handler has it. The configuration of the inference call sets no timeout.
  The handler sends no response at all exactly when one of its inference calls is never
  answered: it waits for that call for ever. A call that cannot reach the engine is
  rejected and ends the whole batch with the error response of status 500.
\<close>

theorem silent_call_never_answered:
  assumes "files rq = Some fl" and "upload_handler be F rq = (res, S)"
  shows "timeout upload_config = None \<and>
         (res = None) = (\<exists>i r. Dispatched i r \<in> set (trace S) \<and> be i r = Silent) \<and>
         (\<forall>i r. Dispatched i r \<in> set (trace S) \<and> be i r = Unreachable \<longrightarrow>
                  res = Some error_response)"
proof -
  from upload_handler_shape [OF assms(1,2)] obtain c where c: "run_shape be 0 fl c (trace S)"
      "c = Normal \<longrightarrow> res = Some (ok_response (map processed_path fl))"
      "(\<exists>e. c = Throw e) \<longrightarrow> res = Some error_response"
      "c = Await \<longrightarrow> res = None"
    by blast
  have 1: "\<exists>i r. Dispatched i r \<in> set (trace S) \<and> be i r = Silent" if "res = None"
  proof -
    from that c(2,3) have "c = Await" by (cases c) auto
    with c(1) show ?thesis unfolding run_shape_def await_fact_def by blast
  qed
  have 2: "res = None" if "Dispatched i r \<in> set (trace S)" "be i r = Silent" for i r
    using shape_dispatch [OF c(1) that(1)] that(2) c(4) by simp
  have 3: "res = Some error_response" if "Dispatched i r \<in> set (trace S)" "be i r = Unreachable" for i r
    using shape_dispatch [OF c(1) that(1)] that(2) c(3) by simp
  from 1 2 3 show ?thesis by (auto simp: upload_config_def)
qed

theorem silent_call_never_answered_witness:
  "files (batch [file_a]) = Some [file_a] \<and>
   Dispatched 0 (inference_request file_a [1])
     \<in> set (trace (snd (upload_handler engine_silent disk0 (batch [file_a])))) \<and>
   engine_silent 0 (inference_request file_a [1]) = Silent \<and>
   fst (upload_handler engine_silent disk0 (batch [file_a])) = None \<and>
   Dispatched 0 (inference_request file_a [1])
     \<in> set (trace (snd (upload_handler engine_down disk0 (batch [file_a])))) \<and>
   engine_down 0 (inference_request file_a [1]) = Unreachable \<and>
   fst (upload_handler engine_down disk0 (batch [file_a])) = Some error_response"
proof -
  have s: "Dispatched 0 (inference_request file_a [1])
             \<in> set (trace (snd (upload_handler engine_silent disk0 (batch [file_a]))))"
      "engine_silent 0 (inference_request file_a [1]) = Silent"
    by (simp_all add: run_a_silent_trace engine_silent_def)
  have d: "Dispatched 0 (inference_request file_a [1])
             \<in> set (trace (snd (upload_handler engine_down disk0 (batch [file_a]))))"
      "engine_down 0 (inference_request file_a [1]) = Unreachable"
    by (simp_all add: run_a_down_trace engine_down_def)
  from silent_call_never_answered [OF files_batch [of "[file_a]"]
      split_run [of engine_silent disk0 "batch [file_a]"]] s
  have 1: "fst (upload_handler engine_silent disk0 (batch [file_a])) = None" by blast
  from silent_call_never_answered [OF files_batch [of "[file_a]"]
      split_run [of engine_down disk0 "batch [file_a]"]] d
  have 2: "fst (upload_handler engine_down disk0 (batch [file_a])) = Some error_response" by blast
  from s d 1 2 show ?thesis by (simp add: files_batch)
qed

theorem timeout_counterexample:
  "timeout upload_config = None \<and>
   engine_silent 0 (inference_request file_a [1]) = Silent \<and>
   fst (upload_handler engine_silent disk0 (batch [file_a])) = None \<and>
   trace (snd (upload_handler engine_silent disk0 (batch [file_a])))
     = [Dispatched 0 (inference_request file_a [1])] \<and>
   in_flight (trace (snd (upload_handler engine_silent disk0 (batch [file_a])))) = 1"
  by (simp add: run_defs input_defs)

subsection \<open>Calls in flight\<close>

text \<open>
  C7. For a batch of \<open>K\<close> uploads and a concurrency bound \<open>C\<close> of at least one with
  \<open>K > C\<close>, after every prefix of the handler's events at most \<open>C\<close> inference calls
  are in flight. The loop waits for each call before it starts the next, so the number
  is never above one.
\<close>

theorem sequential_dispatch:
  assumes "files rq = Some fl" and "0 < C" and "C < length fl"
  shows "in_flight (take n (trace (snd (upload_handler be F rq)))) \<le> int C"
  using in_flight_at_most_one [of n be F rq] assms(2) by linarith

theorem sequential_dispatch_witness:
  "files (batch [file_a, file_b, file_c]) = Some [file_a, file_b, file_c] \<and>
   (0::nat) < 2 \<and> 2 < length [file_a, file_b, file_c] \<and>
   in_flight (take 5 (trace (snd (upload_handler engine_ok disk0 (batch [file_a, file_b, file_c])))))
     \<le> int 2"
proof -
  have h2: "(0::nat) < 2" and h3: "2 < length [file_a, file_b, file_c]" by simp_all
  from sequential_dispatch [OF files_batch [of "[file_a, file_b, file_c]"] h2 h3, of 5 engine_ok disk0]
  show ?thesis by (simp add: files_batch)
qed

subsection \<open>Start-up\<close>

lemma ensure_dir_top:
  "CHR ''/'' \<notin> set d \<Longrightarrow> ensure_dir d F = Inr (if F d = None then F(d \<mapsto> Dir) else F)"
  by (simp add: ensure_dir_def existsSync_def mkdirSync_def is_dir_def dirname_def)

lemma startup_result:
  "startup F = Inr ((if F ''uploads'' = None then F(''uploads'' \<mapsto> Dir) else F)
      (''processed'' := (case F ''processed'' of None \<Rightarrow> Some Dir | Some x \<Rightarrow> Some x)))"
  by (auto simp: startup_def ensure_dir_top fun_upd_idem split: option.splits)

lemma startup_exists:
  "existsSync G ''uploads'' \<and> existsSync G ''processed'' \<Longrightarrow> startup G = Inr G"
  by (auto simp: startup_def ensure_dir_def existsSync_def)

lemma startup_entries:
  assumes "startup F = Inr F'"
  shows "F' ''uploads'' = (case F ''uploads'' of None \<Rightarrow> Some Dir | Some n \<Rightarrow> Some n)"
    and "F' ''processed'' = (case F ''processed'' of None \<Rightarrow> Some Dir | Some n \<Rightarrow> Some n)"
    and "p \<noteq> ''uploads'' \<Longrightarrow> p \<noteq> ''processed'' \<Longrightarrow> F' p = F p"
  using assms unfolding startup_result by (auto split: option.splits)

text \<open>
  C8, as the script has it. The start-up checks always succeed. They create a
  directory for each of the two names that does not exist, leave an entry that exists
  under either name as it is, also when it is a regular file, and touch nothing else;
  run on their own result, or on a disk that has both names, they change nothing. They
  run before the server listens: a server that does not listen serves no request, and
  when the script's top level ends with a listening server, the upload middleware has
  been built, which makes \<^verbatim>\<open>uploads\<close> a directory, the checks have run on the disk it
  left, and the disk served is their result. When \<^verbatim>\<open>uploads\<close> is a regular file
  the top level fails before it listens.
\<close>

theorem startup_idempotent:
  "(\<exists>F'. startup F = Inr F' \<and> startup F' = Inr F' \<and>
          existsSync F' ''uploads'' \<and> existsSync F' ''processed'' \<and>
          F' ''uploads'' = (case F ''uploads'' of None \<Rightarrow> Some Dir | Some n \<Rightarrow> Some n) \<and>
          F' ''processed'' = (case F ''processed'' of None \<Rightarrow> Some Dir | Some n \<Rightarrow> Some n) \<and>
          (p \<noteq> ''uploads'' \<and> p \<noteq> ''processed'' \<longrightarrow> F' p = F p)) \<and>
   (existsSync F ''uploads'' \<and> existsSync F ''processed'' \<longrightarrow> startup F = Inr F) \<and>
   (\<not> listening sv \<longrightarrow>
      serve be sv rq = None \<and>
      (disk sv ''uploads'' = Some (File b) \<longrightarrow> main sv = Inl EEXIST) \<and>
      (main sv = Inr sv' \<longrightarrow>
         listening sv' \<and>
         (\<exists>F0. mkdirp_sync ''uploads'' (disk sv) = Inr F0 \<and> F0 ''uploads'' = Some Dir \<and>
               startup F0 = Inr (disk sv')) \<and>
         disk sv' ''uploads'' = Some Dir \<and>
         disk sv' ''processed''
           = (case disk sv ''processed'' of None \<Rightarrow> Some Dir | Some n \<Rightarrow> Some n) \<and>
         serve be sv' rq = Some (upload_handler be (disk sv') rq)))"
proof -
  obtain F' where F': "startup F = Inr F'" using startup_result by blast
  note e = startup_entries [OF F']
  have x: "existsSync F' ''uploads'' \<and> existsSync F' ''processed''"
    using e(1,2) by (auto simp: existsSync_def split: option.splits)
  have A: "\<exists>F'. startup F = Inr F' \<and> startup F' = Inr F' \<and>
          existsSync F' ''uploads'' \<and> existsSync F' ''processed'' \<and>
          F' ''uploads'' = (case F ''uploads'' of None \<Rightarrow> Some Dir | Some n \<Rightarrow> Some n) \<and>
          F' ''processed'' = (case F ''processed'' of None \<Rightarrow> Some Dir | Some n \<Rightarrow> Some n) \<and>
          (p \<noteq> ''uploads'' \<and> p \<noteq> ''processed'' \<longrightarrow> F' p = F p)"
    using F' startup_exists [OF x] x e by (intro exI [of _ F']) simp
  have B: "existsSync F ''uploads'' \<and> existsSync F ''processed'' \<longrightarrow> startup F = Inr F"
    using startup_exists by blast
  have C1: "disk sv ''uploads'' = Some (File b) \<longrightarrow> main sv = Inl EEXIST"
    by (simp add: main_def mkdirp_sync_def)
  have C2: "listening sv' \<and>
         (\<exists>F0. mkdirp_sync ''uploads'' (disk sv) = Inr F0 \<and> F0 ''uploads'' = Some Dir \<and>
               startup F0 = Inr (disk sv')) \<and>
         disk sv' ''uploads'' = Some Dir \<and>
         disk sv' ''processed''
           = (case disk sv ''processed'' of None \<Rightarrow> Some Dir | Some n \<Rightarrow> Some n) \<and>
         serve be sv' rq = Some (upload_handler be (disk sv') rq)"
    if m: "main sv = Inr sv'"
  proof -
    from m obtain F0 G where F0: "mkdirp_sync ''uploads'' (disk sv) = Inr F0"
      and G: "startup F0 = Inr G" and sv': "sv' = sv\<lparr>disk := G, listening := True\<rparr>"
      by (auto simp: main_def split: sum.splits)
    from F0 have u: "F0 ''uploads'' = Some Dir" and pr: "F0 ''processed'' = disk sv ''processed''"
      by (auto simp: mkdirp_sync_def split: option.splits node.splits)
    note g = startup_entries [OF G]
    from g(1) u have gu: "G ''uploads'' = Some Dir" by simp
    from g(2) pr have gp: "G ''processed''
        = (case disk sv ''processed'' of None \<Rightarrow> Some Dir | Some n \<Rightarrow> Some n)" by simp
    from F0 u G gu gp sv' show ?thesis by (simp add: serve_def)
  qed
  have C: "\<not> listening sv \<longrightarrow>
      serve be sv rq = None \<and>
      (disk sv ''uploads'' = Some (File b) \<longrightarrow> main sv = Inl EEXIST) \<and>
      (main sv = Inr sv' \<longrightarrow>
         listening sv' \<and>
         (\<exists>F0. mkdirp_sync ''uploads'' (disk sv) = Inr F0 \<and> F0 ''uploads'' = Some Dir \<and>
               startup F0 = Inr (disk sv')) \<and>
         disk sv' ''uploads'' = Some Dir \<and>
         disk sv' ''processed''
           = (case disk sv ''processed'' of None \<Rightarrow> Some Dir | Some n \<Rightarrow> Some n) \<and>
         serve be sv' rq = Some (upload_handler be (disk sv') rq))"
    using C1 C2 by (simp add: serve_def)
  show ?thesis by (rule conjI [OF A conjI [OF B C]])
qed

theorem startup_idempotent_witness:
  "existsSync disk0 ''uploads'' \<and> existsSync disk0 ''processed'' \<and>
   startup disk0 = Inr disk0 \<and>
   ''uploads/a1'' \<noteq> ''uploads'' \<and> ''uploads/a1'' \<noteq> ''processed'' \<and>
   \<not> listening \<lparr>disk = Map.empty, listening = False\<rparr> \<and>
   serve engine_ok \<lparr>disk = Map.empty, listening = False\<rparr> (batch []) = None \<and>
   main \<lparr>disk = Map.empty, listening = False\<rparr>
     = Inr \<lparr>disk = [''uploads'' \<mapsto> Dir, ''processed'' \<mapsto> Dir], listening = True\<rparr> \<and>
   serve engine_ok \<lparr>disk = [''uploads'' \<mapsto> Dir, ''processed'' \<mapsto> Dir], listening = True\<rparr> (batch [])
     = Some (upload_handler engine_ok [''uploads'' \<mapsto> Dir, ''processed'' \<mapsto> Dir] (batch []))"
proof -
  let ?sv = "\<lparr>disk = Map.empty, listening = False\<rparr>"
  let ?sv' = "\<lparr>disk = [''uploads'' \<mapsto> Dir, ''processed'' \<mapsto> Dir], listening = True\<rparr>"
  have h: "existsSync disk0 ''uploads'' \<and> existsSync disk0 ''processed''"
    by (simp add: existsSync_def disk0_def)
  have n: "\<not> listening ?sv" by simp
  have m: "main ?sv = Inr ?sv'"
    by (simp add: main_def mkdirp_sync_def startup_def ensure_dir_def existsSync_def
          mkdirSync_def is_dir_def dirname_def)
  note t = startup_idempotent [where F = disk0 and sv = ?sv and sv' = ?sv'
      and be = engine_ok and rq = "batch []" and p = "''uploads/a1''"]
  note s = t [THEN conjunct2, THEN conjunct1, THEN mp, OF h]
  note l = t [THEN conjunct2, THEN conjunct2, THEN mp, OF n]
  from l have "serve engine_ok ?sv (batch []) = None" by (rule conjunct1)
  moreover from l [THEN conjunct2, THEN conjunct2, THEN mp, OF m]
  have "serve engine_ok ?sv' (batch []) = Some (upload_handler engine_ok (disk ?sv') (batch []))"
    by blast
  ultimately show ?thesis using h s n m by simp
qed

theorem startup_counterexample:
  "disk_clash ''processed'' = Some (File []) \<and>
   (case startup disk_clash of
      Inl e \<Rightarrow> False
    | Inr F \<Rightarrow> F ''processed'' = Some (File []) \<and> \<not> is_dir F ''processed'') \<and>
   (case main \<lparr>disk = disk_clash, listening = False\<rparr> of
      Inl e \<Rightarrow> False
    | Inr sv \<Rightarrow> listening sv \<and> disk sv ''processed'' = Some (File []))"
  by (simp add: main_def mkdirp_sync_def startup_def ensure_dir_def existsSync_def
        mkdirSync_def is_dir_def dirname_def disk_clash_def)

subsection \<open>What the inference calls depend on\<close>

text \<open>
  C9, as the handler has it. The request sent for an item is made of the fixed URL, the
  form field \<^verbatim>\<open>file\<close> and the read stream on the item's stored path: it depends on
  the stored upload's path and on the bytes read there, not on the bytes alone; when
  the stored uploads are distinct and no output path is a stored upload, those are the
  bytes the disk held before the run. Two submissions with the same stored uploads and
  arbitrary, different quality parameters make the handler send the same inference
  calls, in the same order: the parameters have no influence on any call.
\<close>

theorem requests_ignore_parameters:
  assumes "files r1 = files r2"
  shows "dispatched (trace (snd (upload_handler be F r1)))
           = dispatched (trace (snd (upload_handler be F r2))) \<and>
         (files r1 = Some fl \<and> Dispatched i r \<in> set (trace (snd (upload_handler be F r1))) \<longrightarrow>
            i < length fl \<and>
            url r = ''http://localhost:5001/remove-background'' \<and>
            field r = ''file'' \<and>
            stream_path r = path (fl ! i) \<and>
            (distinct (map path fl) \<and> (\<forall>f \<in> set fl. processed_path f \<notin> path ` set fl) \<longrightarrow>
               F (path (fl ! i)) = Some (File (content r))))"
proof -
  have 1: "upload_handler be F r1 = upload_handler be F r2"
    using assms by (simp add: upload_handler_def)
  have 2: "i < length fl \<and>
            url r = ''http://localhost:5001/remove-background'' \<and>
            field r = ''file'' \<and>
            stream_path r = path (fl ! i) \<and>
            (distinct (map path fl) \<and> (\<forall>f \<in> set fl. processed_path f \<notin> path ` set fl) \<longrightarrow>
               F (path (fl ! i)) = Some (File (content r)))"
    if fl: "files r1 = Some fl" and d: "Dispatched i r \<in> set (trace (snd (upload_handler be F r1)))"
  proof -
    obtain res S where run: "upload_handler be F r1 = (res, S)"
      by (cases "upload_handler be F r1")
    from upload_handler_shape [OF fl run] obtain c where "run_shape be 0 fl c (trace S)"
      by blast
    from shape_dispatch_item [OF this, of i r] d run
    obtain b where i: "i < length fl" and r: "r = inference_request (fl ! i) b" by auto
    from r have sp: "stream_path r = path (fl ! i)"
      and u: "url r = ''http://localhost:5001/remove-background''" and f: "field r = ''file''"
      by (simp_all add: inference_request_def)
    have "F (path (fl ! i)) = Some (File (content r))"
      if "distinct (map path fl)" "\<forall>f \<in> set fl. processed_path f \<notin> path ` set fl"
      using upload_handler_reads [OF fl that d] sp by simp
    with i sp u f show ?thesis by blast
  qed
  from 1 2 show ?thesis by simp
qed

theorem requests_ignore_parameters_witness:
  "files (batch [file_a, file_b]) = files ((batch [file_a, file_b])\<lparr>query := out_of_range\<rparr>) \<and>
   query (batch [file_a, file_b]) \<noteq> query ((batch [file_a, file_b])\<lparr>query := out_of_range\<rparr>) \<and>
   dispatched (trace (snd (upload_handler engine_ok disk0 (batch [file_a, file_b]))))
     = dispatched (trace (snd (upload_handler engine_ok disk0
                                 ((batch [file_a, file_b])\<lparr>query := out_of_range\<rparr>)))) \<and>
   files (batch [file_a, file_b]) = Some [file_a, file_b] \<and>
   Dispatched 1 (inference_request file_b [2])
     \<in> set (trace (snd (upload_handler engine_ok disk0 (batch [file_a, file_b])))) \<and>
   distinct (map path [file_a, file_b]) \<and>
   processed_path file_a \<notin> path ` set [file_a, file_b] \<and>
   processed_path file_b \<notin> path ` set [file_a, file_b] \<and>
   stream_path (inference_request file_b [2]) = path ([file_a, file_b] ! 1) \<and>
   disk0 (path ([file_a, file_b] ! 1)) = Some (File (content (inference_request file_b [2])))"
proof -
  let ?r1 = "batch [file_a, file_b]"
  have h: "files ?r1 = files (?r1\<lparr>query := out_of_range\<rparr>)"
    by simp
  have q: "query ?r1 \<noteq> query (?r1\<lparr>query := out_of_range\<rparr>)"
    by (simp add: batch_def out_of_range_def)
  have d: "Dispatched 1 (inference_request file_b [2])
             \<in> set (trace (snd (upload_handler engine_ok disk0 ?r1)))"
    by (simp add: run_defs input_defs)
  have x: "distinct (map path [file_a, file_b])"
      "processed_path file_a \<notin> path ` set [file_a, file_b]"
      "processed_path file_b \<notin> path ` set [file_a, file_b]"
    by (simp_all add: processed_path_def file_a_def file_b_def)
  then have y: "distinct (map path [file_a, file_b]) \<and>
      (\<forall>f \<in> set [file_a, file_b]. processed_path f \<notin> path ` set [file_a, file_b])"
    by simp
  note t = requests_ignore_parameters [OF h, where be = engine_ok and F = disk0
      and fl = "[file_a, file_b]" and i = 1 and r = "inference_request file_b [2]"]
  note e = t [THEN conjunct1]
  note c = t [THEN conjunct2, THEN mp, OF conjI [OF files_batch d]]
  from c have sp: "stream_path (inference_request file_b [2]) = path ([file_a, file_b] ! 1)"
    by blast
  from c y have ct: "disk0 (path ([file_a, file_b] ! 1))
      = Some (File (content (inference_request file_b [2])))"
    by blast
  from h q e files_batch [of "[file_a, file_b]"] d x sp ct show ?thesis by blast
qed

theorem request_bytes_counterexample:
  "disk_twin (path file_a) = disk_twin (path file_z) \<and>
   dispatched (trace (snd (upload_handler engine_ok disk_twin (batch [file_a]))))
     = [inference_request file_a [1]] \<and>
   dispatched (trace (snd (upload_handler engine_ok disk_twin (batch [file_z]))))
     = [inference_request file_z [1]] \<and>
   inference_request file_a [1] \<noteq> inference_request file_z [1]"
  by (simp add: run_defs input_defs)

end
